theory Spec2Isabelle
  imports Main
begin

section \<open>Standard streams and outcomes of Python code\<close>

text \<open>
  The script writes text to the two standard streams and ends either by returning or by
  an exception. A stream is the text written to it so far; a Python \<open>str\<close> is a
  \<open>string\<close> (for text outside ASCII, its UTF-8 bytes: every operation below compares
  with ASCII characters only, which no byte of a longer UTF-8 sequence equals).
  Writing to a stream is taken to succeed always: failures of the operating system and
  of the stream's encoder are outside this model.
\<close>

record streams =
  stdout :: string
  stderr :: string

text \<open>
  The two actions of the parser, and what can end its work early:
  \<open>raise ArgumentError(action, message)\<close>; a call of \<open>self.error(message)\<close>; the
  help action, which prints the help and calls \<open>parser.exit()\<close>; an index out of range;
  and \<open>Unreachable\<close> for the one place where the parser would go on with a value that
  is not a string (a store action given another number of argument strings than one).
  The last two never occur, which is part of what is proved about the exit status.
\<close>

datatype action = HelpAction | StoreAction

datatype exn =
    ArgumentError action string
  | ParserError string
  | HelpExit
  | IndexError
  | Unreachable

datatype 'a outcome = Returns 'a | SystemExit int | Uncaught exn

type_synonym 'a py = "streams \<Rightarrow> 'a outcome \<times> streams"

definition returns :: "'a \<Rightarrow> 'a py" where
  "returns v io = (Returns v, io)"

definition bind :: "'a py \<Rightarrow> ('a \<Rightarrow> 'b py) \<Rightarrow> 'b py" where
  "bind m f io =
     (case m io of
        (Returns v, io') \<Rightarrow> f v io'
      | (SystemExit c, io') \<Rightarrow> (SystemExit c, io')
      | (Uncaught e, io') \<Rightarrow> (Uncaught e, io'))"

definition newline :: char where
  "newline = CHR 0x0A"

text \<open>\<open>print(s)\<close>: the text and a line terminator go to standard output.\<close>

definition print :: "string \<Rightarrow> unit py" where
  "print s io = (Returns (), io\<lparr>stdout := stdout io @ s @ [newline]\<rparr>)"

section \<open>The humidity lookup stub\<close>

text \<open>
  \<^verbatim>\<open>
  def get_humidity(location: str) -> str:
      print(f"Fetching live humidity for {location}...")
      return "45% (Simulated)"
  \<close>
\<close>

definition get_humidity :: "string \<Rightarrow> string py" where
  "get_humidity location =
     bind (print (''Fetching live humidity for '' @ location @ ''...''))
       (\<lambda>_. returns ''45% (Simulated)'')"

section \<open>The argument parser\<close>

text \<open>
  The entry point builds \<open>argparse.ArgumentParser()\<close> and registers one option:
  \<^verbatim>\<open>
  parser = argparse.ArgumentParser()
  parser.add_argument("--location", type=str, default="Mountain View")
  args = parser.parse_args()
  \<close>
  The parser therefore knows \<open>-h\<close>/\<open>--help\<close> (the help action that the constructor
  adds, \<open>nargs=0\<close>) and \<open>--location\<close> (a store action taking one string), and no
  positional argument; \<open>prefix_chars\<close> is \<open>-\<close> and abbreviations are allowed.
  The functions below follow \<open>Lib/argparse.py\<close> of CPython (3.11.10 and 3.12.3, which
  agree on all of them), specialised to this parser. What the parser object gets from its environment is a field of the
  record: the program name, the usage and help texts laid out by \<open>HelpFormatter\<close>
  (they depend on the program name and the terminal width), the compiled pattern
  \<open>^-\d+$|^-\d*\.\d+$\<close> as the predicate "matches", and the \<open>%r\<close> conversion used
  in messages.
\<close>

record ArgumentParser =
  prog :: string
  format_usage :: string
  format_help :: string
  negative_number_matcher :: "string \<Rightarrow> bool"
  repr :: "string \<Rightarrow> string"

record Namespace =
  location :: string

definition prefix_chars :: string where
  "prefix_chars = ''-''"

text \<open>\<open>self._option_string_actions\<close>, in insertion order.\<close>

definition option_string_actions :: "(string \<times> action) list" where
  "option_string_actions =
     [(''-h'', HelpAction), (''--help'', HelpAction), (''--location'', StoreAction)]"

text \<open>\<open>_get_action_name\<close>: the option strings of the action joined by \<open>/\<close>.\<close>

fun get_action_name :: "action \<Rightarrow> string" where
  "get_action_name HelpAction = ''-h/--help''"
| "get_action_name StoreAction = ''--location''"

text \<open>\<open>str.startswith\<close>, \<open>str.partition\<close> and \<open>str.join\<close>.\<close>

definition startswith :: "string \<Rightarrow> string \<Rightarrow> bool" where
  "startswith s p = (take (length p) s = p)"

definition partition_str :: "char \<Rightarrow> string \<Rightarrow> string \<times> string \<times> string" where
  "partition_str c s =
     (if c \<in> set s
      then (takeWhile (\<lambda>x. x \<noteq> c) s, [c], tl (dropWhile (\<lambda>x. x \<noteq> c) s))
      else (s, [], []))"

fun join :: "string \<Rightarrow> string list \<Rightarrow> string" where
  "join sep [] = []"
| "join sep [x] = x"
| "join sep (x # y # ys) = x @ sep @ join sep (y # ys)"

text \<open>
  An option tuple is \<open>(action, option_string, sep, explicit_arg)\<close>; Python's \<open>None\<close> is
  \<open>None\<close> here.
\<close>

type_synonym option_tuple = "action option \<times> string \<times> string option \<times> string option"

text \<open>
  \<open>_get_option_tuples\<close>: the options that the string abbreviates. A string of two prefix
  characters is split at \<open>=\<close> and matched as a prefix of every option string; a string
  of one prefix character matches a short option followed by its argument, or is a
  prefix of an option string. Reading \<open>option_string[1]\<close> of a shorter string raises.
\<close>

definition get_option_tuples :: "string \<Rightarrow> exn + option_tuple list" where
  "get_option_tuples option_string =
     (case option_string of
        c0 # c1 # _ \<Rightarrow>
          if c0 \<in> set prefix_chars \<and> c1 \<in> set prefix_chars then
            (case partition_str CHR ''='' option_string of
               (option_prefix, sep, explicit_arg) \<Rightarrow>
                 Inr (map (\<lambda>(os, a).
                        (Some a, os,
                         if sep = [] then None else Some sep,
                         if sep = [] then None else Some explicit_arg))
                      (filter (\<lambda>(os, a). startswith os option_prefix) option_string_actions)))
          else if c0 \<in> set prefix_chars \<and> c1 \<notin> set prefix_chars then
            Inr (concat (map (\<lambda>(os, a).
                   if os = take 2 option_string
                   then [(Some a, os, Some [], Some (drop 2 option_string))]
                   else if startswith os option_string
                   then [(Some a, os, None, None)]
                   else []) option_string_actions))
          else Inl (ParserError (''unexpected option string: '' @ option_string))
      | _ \<Rightarrow> Inl IndexError)"

text \<open>
  \<open>_parse_optional\<close>: \<open>Inr None\<close> when the string is meant to be positional,
  \<open>Inr (Some tuple)\<close> when it is an option (with no action when the parser has no such
  option), and the error of an ambiguous abbreviation. No option of this parser looks
  like a negative number, so a string that does is positional.
\<close>

definition parse_optional :: "ArgumentParser \<Rightarrow> string \<Rightarrow> exn + option_tuple option" where
  "parse_optional self arg_string =
     (if arg_string = [] then Inr None
      else if hd arg_string \<notin> set prefix_chars then Inr None
      else case map_of option_string_actions arg_string of
        Some action \<Rightarrow> Inr (Some (Some action, arg_string, None, None))
      | None \<Rightarrow>
        if length arg_string = 1 then Inr None
        else case partition_str CHR ''='' arg_string of
          (option_string, sep, explicit_arg) \<Rightarrow>
            (case (if sep \<noteq> [] then map_of option_string_actions option_string else None) of
               Some action \<Rightarrow> Inr (Some (Some action, option_string, Some sep, Some explicit_arg))
             | None \<Rightarrow>
               (case get_option_tuples arg_string of
                  Inl e \<Rightarrow> Inl e
                | Inr option_tuples \<Rightarrow>
                    if length option_tuples > 1 then
                      Inl (ParserError (''ambiguous option: '' @ arg_string @ '' could match ''
                             @ join '', '' (map (\<lambda>(a, os, sep, ea). os) option_tuples)))
                    else if length option_tuples = 1 then Inr (Some (hd option_tuples))
                    else if negative_number_matcher self arg_string then Inr None
                    else if CHR '' '' \<in> set arg_string then Inr None
                    else Inr (Some (None, arg_string, None, None)))))"

text \<open>
  The first pass of \<open>_parse_known_args\<close>: for every argument string its pattern
  character (\<open>O\<close> for an option, \<open>A\<close> for an argument, \<open>-\<close> for the first \<open>--\<close>, after
  which every string is an argument) and, for an option, its entry of
  \<open>option_string_indices\<close>.
\<close>

fun option_string_indices ::
  "ArgumentParser \<Rightarrow> string list \<Rightarrow> exn + (char \<times> option_tuple option) list" where
  "option_string_indices self [] = Inr []"
| "option_string_indices self (arg_string # rest) =
     (if arg_string = ''--''
      then Inr ((CHR ''-'', None) # map (\<lambda>_. (CHR ''A'', None)) rest)
      else case parse_optional self arg_string of
        Inl e \<Rightarrow> Inl e
      | Inr option_tuple \<Rightarrow>
          (case option_string_indices self rest of
             Inl e \<Rightarrow> Inl e
           | Inr r \<Rightarrow>
               Inr ((if option_tuple = None then CHR ''A'' else CHR ''O'', option_tuple) # r)))"

text \<open>
  \<open>_match_argument\<close>: the pattern of the help action (\<open>nargs=0\<close>) is \<open>()\<close>, that of the
  store action (\<open>nargs=None\<close>, an option, so that \<open>--\<close> is not allowed) is \<open>(A)\<close>.
\<close>

fun match_argument :: "action \<Rightarrow> string \<Rightarrow> exn + nat" where
  "match_argument HelpAction arg_strings_pattern = Inr 0"
| "match_argument StoreAction arg_strings_pattern =
     (if startswith arg_strings_pattern ''A'' then Inr 1
      else Inl (ArgumentError StoreAction ''expected one argument''))"

text \<open>
  The \<open>while True\<close> loop of \<open>consume_optional\<close>, which splits a string like \<open>-xyz\<close> into
  single-dash options. It yields the action tuples to run, the strings it adds to
  \<open>extras\<close>, and how many of the following argument strings the option takes
  (\<open>stop - (start_index + 1)\<close>). \<open>arg_string\<close> is \<open>arg_strings[start_index]\<close>,
  \<open>selected_patterns\<close> is \<open>arg_strings_pattern[start_index + 1:]\<close> and \<open>following\<close> is
  \<open>arg_strings[start_index + 1:]\<close>. Where no action was found the function returns at
  once, and runs no action. \<open>sep\<close> is true in Python's sense when it is \<open>=\<close>.
  The test \<open>arg_count == 0 and option_string[1] not in chars and explicit_arg != ''\<close>
  reads \<open>option_string[1]\<close> only when \<open>arg_count\<close> is 0; when that test fails and
  \<open>arg_count\<close> is not 1, the explicit argument is an error.
\<close>

type_synonym action_tuple = "action \<times> string list \<times> string"

function optional_loop ::
  "ArgumentParser \<Rightarrow> string \<Rightarrow> string \<Rightarrow> string list \<Rightarrow>
   action option \<Rightarrow> string \<Rightarrow> string option \<Rightarrow> string option \<Rightarrow> action_tuple list \<Rightarrow>
   exn + (action_tuple list \<times> string list \<times> nat)" where
  "optional_loop self arg_string selected_patterns following
     action option_string sep explicit_arg action_tuples =
     (case action of
        None \<Rightarrow> Inr ([], [arg_string], 0)
      | Some act \<Rightarrow>
        (case explicit_arg of
           None \<Rightarrow>
             (case match_argument act selected_patterns of
                Inl e \<Rightarrow> Inl e
              | Inr arg_count \<Rightarrow>
                  Inr (action_tuples @ [(act, take arg_count following, option_string)],
                       [], arg_count))
         | Some ea \<Rightarrow>
             (case match_argument act ''A'' of
                Inl e \<Rightarrow> Inl e
              | Inr arg_count \<Rightarrow>
                  if arg_count = 0 then
                    (case option_string of
                       c0 # c1 # _ \<Rightarrow>
                         if c1 \<notin> set prefix_chars \<and> ea \<noteq> [] then
                           if (sep \<noteq> None \<and> sep \<noteq> Some []) \<or> hd ea \<in> set prefix_chars
                           then Inl (ArgumentError act
                                  (''ignored explicit argument '' @ repr self ea))
                           else
                             (case map_of option_string_actions [c0, hd ea] of
                                Some act' \<Rightarrow>
                                  if tl ea = [] then
                                    optional_loop self arg_string selected_patterns following
                                      (Some act') [c0, hd ea] None None
                                      (action_tuples @ [(act, [], option_string)])
                                  else if hd (tl ea) = CHR ''='' then
                                    optional_loop self arg_string selected_patterns following
                                      (Some act') [c0, hd ea] (Some ''='') (Some (tl (tl ea)))
                                      (action_tuples @ [(act, [], option_string)])
                                  else
                                    optional_loop self arg_string selected_patterns following
                                      (Some act') [c0, hd ea] (Some []) (Some (tl ea))
                                      (action_tuples @ [(act, [], option_string)])
                              | None \<Rightarrow>
                                  Inr (action_tuples @ [(act, [], option_string)],
                                       [c0 # ea], 0))
                         else Inl (ArgumentError act
                                (''ignored explicit argument '' @ repr self ea))
                     | _ \<Rightarrow> Inl IndexError)
                  else if arg_count = 1 then
                    Inr (action_tuples @ [(act, [ea], option_string)], [], 0)
                  else Inl (ArgumentError act
                         (''ignored explicit argument '' @ repr self ea)))))"
  by pat_completeness auto
termination
  by (relation "measure (\<lambda>(self, a, p, f, action, os, sep, explicit_arg, ts).
        case explicit_arg of None \<Rightarrow> 0 | Some ea \<Rightarrow> Suc (length ea))")
     (auto split: option.splits)

text \<open>
  \<open>take_action\<close> on each action tuple in turn. The help action prints the help and exits;
  the store action sets \<open>location\<close> to the value of its single argument string
  (\<open>_get_values\<close> with \<open>type=str\<close>; \<open>--\<close> is stripped for positionals only). A store
  action never gets another number of strings: \<open>_match_argument\<close> gives it one.
\<close>

fun take_actions :: "Namespace \<Rightarrow> action_tuple list \<Rightarrow> exn + Namespace" where
  "take_actions namespace [] = Inr namespace"
| "take_actions namespace ((HelpAction, args, option_string) # rest) = Inl HelpExit"
| "take_actions namespace ((StoreAction, [arg_string], option_string) # rest) =
     take_actions (namespace\<lparr>location := arg_string\<rparr>) rest"
| "take_actions namespace ((StoreAction, args, option_string) # rest) = Inl Unreachable"

text \<open>\<open>consume_optional\<close>: the loop above, then the actions.\<close>

definition consume_optional ::
  "ArgumentParser \<Rightarrow> Namespace \<Rightarrow> string list \<Rightarrow> string \<Rightarrow> option_tuple \<Rightarrow>
   string \<Rightarrow> string list \<Rightarrow> exn + (Namespace \<times> string list \<times> nat)" where
  "consume_optional self namespace extras arg_string option_tuple selected_patterns following =
     (case option_tuple of
        (action, option_string, sep, explicit_arg) \<Rightarrow>
          (case optional_loop self arg_string selected_patterns following
                  action option_string sep explicit_arg [] of
             Inl e \<Rightarrow> Inl e
           | Inr (action_tuples, new_extras, arg_count) \<Rightarrow>
               (case take_actions namespace action_tuples of
                  Inl e \<Rightarrow> Inl e
                | Inr namespace' \<Rightarrow> Inr (namespace', extras @ new_extras, arg_count))))"

text \<open>
  The main loop of \<open>_parse_known_args\<close> over \<open>arg_strings[start_index:]\<close>, each string
  with its pattern character and option tuple. The parser has no positional action, so
  \<open>consume_positionals\<close> consumes nothing: the strings before the next option, and those
  after the last one, go to \<open>extras\<close> (here one string at a time), and an option is
  handled by \<open>consume_optional\<close>.
\<close>

fun consume ::
  "ArgumentParser \<Rightarrow> Namespace \<Rightarrow> string list \<Rightarrow>
   (string \<times> char \<times> option_tuple option) list \<Rightarrow> exn + (Namespace \<times> string list)" where
  "consume self namespace extras [] = Inr (namespace, extras)"
| "consume self namespace extras ((arg_string, pat, None) # rest) =
     consume self namespace (extras @ [arg_string]) rest"
| "consume self namespace extras ((arg_string, pat, Some option_tuple) # rest) =
     (case consume_optional self namespace extras arg_string option_tuple
             (map (\<lambda>(s, p, t). p) rest) (map (\<lambda>(s, p, t). s) rest) of
        Inl e \<Rightarrow> Inl e
      | Inr (namespace', extras', arg_count) \<Rightarrow>
          consume self namespace' extras' (drop arg_count rest))"

text \<open>
  \<open>_parse_known_args\<close>. No action is required, and converting the string default of an
  option that was not given (\<open>str("Mountain View")\<close>) leaves the namespace as it is.
\<close>

definition parse_known_args_inner ::
  "ArgumentParser \<Rightarrow> string list \<Rightarrow> Namespace \<Rightarrow> exn + (Namespace \<times> string list)" where
  "parse_known_args_inner self arg_strings namespace =
     (case option_string_indices self arg_strings of
        Inl e \<Rightarrow> Inl e
      | Inr indices \<Rightarrow> consume self namespace [] (zip arg_strings indices))"

text \<open>
  \<open>error\<close> writes the usage and the message to standard error and exits with status 2;
  the help action writes the help to standard output and exits with status 0.
\<close>

definition error :: "ArgumentParser \<Rightarrow> string \<Rightarrow> 'a py" where
  "error self message io =
     (SystemExit 2,
      io\<lparr>stderr := stderr io @ format_usage self
                    @ prog self @ '': error: '' @ message @ [newline]\<rparr>)"

definition print_help_exit :: "ArgumentParser \<Rightarrow> 'a py" where
  "print_help_exit self io = (SystemExit 0, io\<lparr>stdout := stdout io @ format_help self\<rparr>)"

text \<open>
  \<open>parse_known_args\<close>: the namespace starts with the default of \<open>--location\<close>; an
  \<open>ArgumentError\<close> is caught and reported through \<open>error\<close> as
  \<open>argument NAME: MESSAGE\<close>.
\<close>

definition parse_known_args :: "ArgumentParser \<Rightarrow> string list \<Rightarrow> (Namespace \<times> string list) py" where
  "parse_known_args self args io =
     (case parse_known_args_inner self args \<lparr>location = ''Mountain View''\<rparr> of
        Inl (ArgumentError act message) \<Rightarrow>
          error self (''argument '' @ get_action_name act @ '': '' @ message) io
      | Inl (ParserError message) \<Rightarrow> error self message io
      | Inl HelpExit \<Rightarrow> print_help_exit self io
      | Inl IndexError \<Rightarrow> (Uncaught IndexError, io)
      | Inl Unreachable \<Rightarrow> (Uncaught Unreachable, io)
      | Inr (namespace, extras) \<Rightarrow> (Returns (namespace, extras), io))"

definition parse_args :: "ArgumentParser \<Rightarrow> string list \<Rightarrow> Namespace py" where
  "parse_args self args =
     bind (parse_known_args self args)
       (\<lambda>(namespace, argv).
          if argv \<noteq> [] then error self (''unrecognized arguments: '' @ join '' '' argv)
          else returns namespace)"

section \<open>The command-line entry point\<close>

text \<open>
  \<^verbatim>\<open>
  args = parser.parse_args()
  print(get_humidity(args.location))
  \<close>
  \<open>argv\<close> is \<open>sys.argv[1:]\<close>. The exit status of the process is 0 when the script runs
  to its end, the status of \<open>SystemExit\<close> when the parser exits, and 1 for any other
  exception.
\<close>

definition main :: "ArgumentParser \<Rightarrow> string list \<Rightarrow> unit py" where
  "main self argv =
     bind (parse_args self argv)
       (\<lambda>args. bind (get_humidity (location args)) (\<lambda>result. print result))"

fun exit_status :: "'a outcome \<Rightarrow> int" where
  "exit_status (Returns v) = 0"
| "exit_status (SystemExit c) = c"
| "exit_status (Uncaught e) = 1"

text \<open>A run of the script from empty streams: its exit status and what it wrote.\<close>

definition run :: "ArgumentParser \<Rightarrow> string list \<Rightarrow> int \<times> streams" where
  "run self argv =
     (case main self argv \<lparr>stdout = [], stderr = []\<rparr> of
        (r, io) \<Rightarrow> (exit_status r, io))"

section \<open>Lines of output, and the parser of a concrete run\<close>

text \<open>
  The lines of a text: each stretch that a line terminator ends, and what follows the
  last terminator when that is not empty.
\<close>

fun split_lines :: "string \<Rightarrow> string \<Rightarrow> string list" where
  "split_lines cur [] = (if cur = [] then [] else [cur])"
| "split_lines cur (c # cs) =
     (if c = newline then cur # split_lines [] cs else split_lines (cur @ [c]) cs)"

definition lines_of :: "string \<Rightarrow> string list" where
  "lines_of s = split_lines [] s"

text \<open>What a call wrote to standard output: the text added to the stream.\<close>

definition printed :: "streams \<Rightarrow> streams \<Rightarrow> string" where
  "printed io io' = drop (length (stdout io)) (stdout io')"

text \<open>
  The parser object of a run as \<open>get_humidity.py\<close> on a terminal wide enough for the
  usage line. Its pattern for negative numbers is written out for ASCII digits (\<open>$\<close>
  also matches before a final line terminator), and its \<open>%r\<close> for text without
  quotes, backslashes and unprintable characters, which Python puts between single
  quotes.
\<close>

definition digit :: "char \<Rightarrow> bool" where
  "digit c = (c \<in> set ''0123456789'')"

definition negative_number :: "string \<Rightarrow> bool" where
  "negative_number s =
     (case s of
        [] \<Rightarrow> False
      | c # r \<Rightarrow>
          c = CHR ''-'' \<and>
          ((r \<noteq> [] \<and> list_all digit r) \<or>
           (case dropWhile digit r of
              [] \<Rightarrow> False
            | d # fs \<Rightarrow> d = CHR ''.'' \<and> fs \<noteq> [] \<and> list_all digit fs)))"

definition ascii_negative_number_matcher :: "string \<Rightarrow> bool" where
  "ascii_negative_number_matcher s =
     (negative_number s \<or> (s \<noteq> [] \<and> last s = newline \<and> negative_number (butlast s)))"

definition quoted :: "string \<Rightarrow> string" where
  "quoted s = [CHR 0x27] @ s @ [CHR 0x27]"

definition example_parser :: ArgumentParser where
  "example_parser =
     \<lparr>prog = ''get_humidity.py'',
      format_usage = ''usage: get_humidity.py [-h] [--location LOCATION]'' @ [newline],
      format_help =
        ''usage: get_humidity.py [-h] [--location LOCATION]'' @ [newline] @ [newline]
        @ ''options:'' @ [newline]
        @ ''  -h, --help           show this help message and exit'' @ [newline]
        @ ''  --location LOCATION'' @ [newline],
      negative_number_matcher = ascii_negative_number_matcher,
      repr = quoted\<rparr>"

text \<open>
  For the proofs about the main loop: an argument string with its pattern character and
  option tuple; the facts that \<open>parse_optional\<close> guarantees of an option tuple; and
  the option that takes the next argument string as its value.
\<close>

type_synonym token = "string \<times> char \<times> option_tuple option"

definition wf_tok :: "token \<Rightarrow> bool" where
  "wf_tok tok =
     (\<forall>a os sep ea. snd (snd tok) = Some (Some a, os, sep, ea) \<longrightarrow>
        2 \<le> length os
        \<and> (a = StoreAction \<longrightarrow> startswith (fst tok) ''--l'')
        \<and> (a = StoreAction \<and> ea = None \<longrightarrow>
             3 \<le> length (fst tok) \<and> startswith ''--location'' (fst tok))
        \<and> (a = HelpAction \<longrightarrow> startswith (fst tok) ''-h'' \<or> startswith (fst tok) ''--h''))"

definition takes_value :: "token \<Rightarrow> bool" where
  "takes_value tok = (\<exists>os sep. snd (snd tok) = Some (Some StoreAction, os, sep, None))"

declare optional_loop.simps [simp del]

section \<open>Properties of the lookup stub\<close>

lemma split_lines_line:
  "newline \<notin> set a \<Longrightarrow> split_lines cur (a @ newline # rest) = (cur @ a) # split_lines [] rest"
  by (induction a arbitrary: cur) auto

lemma get_humidity_eq:
  "get_humidity L io =
     (Returns ''45% (Simulated)'',
      io\<lparr>stdout := stdout io @ (''Fetching live humidity for '' @ L @ ''...'' @ [newline])\<rparr>)"
  by (simp add: get_humidity_def bind_def print_def returns_def)

lemma printed_append: "printed io (io\<lparr>stdout := stdout io @ w\<rparr>) = w"
  by (simp add: printed_def)

text \<open>
  C1. For every input string, the empty one included, and whatever has been written
  before, \<open>get_humidity\<close> returns exactly the literal \<open>45% (Simulated)\<close>: the returned
  value does not depend on the input.
\<close>

theorem get_humidity_returns_constant:
  "fst (get_humidity L io) = Returns ''45% (Simulated)''"
  by (simp add: get_humidity_def bind_def print_def returns_def)

text \<open>
  C2 (amended). For every input string \<open>L\<close>, \<open>get_humidity\<close> adds to standard output
  exactly the notice \<open>Fetching live humidity for L...\<close> and a line terminator, and leaves
  standard error as it was; when \<open>L\<close> holds no line terminator, what it adds is
  exactly one line, the notice.
\<close>

theorem get_humidity_prints_notice:
  "snd (get_humidity L io)
     = io\<lparr>stdout := stdout io @ ''Fetching live humidity for '' @ L @ ''...'' @ [newline]\<rparr>
   \<and> printed io (snd (get_humidity L io))
     = ''Fetching live humidity for '' @ L @ ''...'' @ [newline]
   \<and> (newline \<notin> set L \<longrightarrow>
        lines_of (printed io (snd (get_humidity L io)))
          = [''Fetching live humidity for '' @ L @ ''...''])"
proof -
  have w: "snd (get_humidity L io)
     = io\<lparr>stdout := stdout io @ ''Fetching live humidity for '' @ L @ ''...'' @ [newline]\<rparr>"
    by (simp add: get_humidity_def bind_def print_def returns_def)
  have p: "printed io (snd (get_humidity L io))
     = ''Fetching live humidity for '' @ L @ ''...'' @ [newline]"
    unfolding w printed_def by simp
  have l: "lines_of (''Fetching live humidity for '' @ L @ ''...'' @ [newline])
     = [''Fetching live humidity for '' @ L @ ''...'']" if "newline \<notin> set L"
  proof -
    have "newline \<notin> set (''Fetching live humidity for '' @ L @ ''...'')"
      using that by (auto simp: newline_def)
    from split_lines_line[OF this, of "[]" "[]"] show ?thesis
      by (simp add: lines_of_def)
  qed
  from w p l show ?thesis by simp
qed

theorem get_humidity_prints_notice_witness:
  "newline \<notin> set ''Tokyo''
   \<and> lines_of (printed \<lparr>stdout = [], stderr = []\<rparr>
        (snd (get_humidity ''Tokyo'' \<lparr>stdout = [], stderr = []\<rparr>)))
      = [''Fetching live humidity for Tokyo...'']"
proof -
  have h: "newline \<notin> set ''Tokyo''" by (simp add: newline_def)
  with get_humidity_prints_notice [of "''Tokyo''" "\<lparr>stdout = [], stderr = []\<rparr>"]
  have "lines_of (printed \<lparr>stdout = [], stderr = []\<rparr>
        (snd (get_humidity ''Tokyo'' \<lparr>stdout = [], stderr = []\<rparr>)))
      = [''Fetching live humidity for '' @ ''Tokyo'' @ ''...'']"
    by blast
  with h show ?thesis by simp
qed

text \<open>
  The claim as it stands, one line for every input string, fails for a location that
  holds a line terminator: the call then writes two lines.
\<close>

theorem get_humidity_two_lines_counterexample:
  "lines_of (printed \<lparr>stdout = [], stderr = []\<rparr>
      (snd (get_humidity ([CHR ''a'', CHR 0x0A, CHR ''b'']) \<lparr>stdout = [], stderr = []\<rparr>)))
   = [''Fetching live humidity for a'', ''b...'']"
  by (simp add: get_humidity_def bind_def print_def returns_def printed_def lines_of_def
      newline_def)


text \<open>
  C7. Determinism: two calls of \<open>get_humidity\<close> with the same input, whatever the state
  of the streams at each call (so also one call after the other), return the same value
  and print the same text, and neither writes to standard error.
\<close>

theorem get_humidity_deterministic:
  "fst (get_humidity L io1) = fst (get_humidity L io2)
   \<and> printed io1 (snd (get_humidity L io1)) = printed io2 (snd (get_humidity L io2))
   \<and> fst (get_humidity L (snd (get_humidity L io1))) = fst (get_humidity L io1)
   \<and> printed (snd (get_humidity L io1)) (snd (get_humidity L (snd (get_humidity L io1))))
       = printed io1 (snd (get_humidity L io1))
   \<and> stderr (snd (get_humidity L io1)) = stderr io1"
proof -
  have p: "printed io (snd (get_humidity L io))
      = ''Fetching live humidity for '' @ L @ ''...'' @ [newline]" for io
    unfolding get_humidity_eq snd_conv by (rule printed_append)
  have f: "fst (get_humidity L io) = Returns ''45% (Simulated)''" for io
    unfolding get_humidity_eq by simp
  have e: "stderr (snd (get_humidity L io1)) = stderr io1"
    unfolding get_humidity_eq by simp
  show ?thesis unfolding p f using e by simp
qed

section \<open>Facts about the parser\<close>

text \<open>
  What each step of the parser can yield: the loop over single-dash options, the
  classification of one argument string, the handling of one option, and the main loop.
\<close>

lemma map_of_two: "map_of option_string_actions [a, b] = Some act \<Longrightarrow> act = HelpAction"
  by (auto simp: option_string_actions_def split: if_splits)

lemma map_of_len: "map_of option_string_actions s = Some act \<Longrightarrow> 2 \<le> length s"
  by (auto simp: option_string_actions_def split: if_splits)

lemma optional_loop_None:
  "optional_loop self s pats fol None os sep ea ts = Inr ([], [s], 0)"
  by (simp add: optional_loop.simps)

lemma optional_loop_Store_None:
  "optional_loop self s pats fol (Some StoreAction) os sep None ts =
     (if startswith pats ''A'' then Inr (ts @ [(StoreAction, take 1 fol, os)], [], 1)
      else Inl (ArgumentError StoreAction ''expected one argument''))"
  by (simp add: optional_loop.simps)

lemma optional_loop_Store_Some:
  "optional_loop self s pats fol (Some StoreAction) os sep (Some ea) ts =
     Inr (ts @ [(StoreAction, [ea], os)], [], 0)"
  by (simp add: optional_loop.simps startswith_def)

lemma optional_loop_Help:
  "action = Some HelpAction \<Longrightarrow> 2 \<le> length os \<Longrightarrow>
   (\<exists>m. optional_loop self s pats fol action os sep ea ts = Inl (ArgumentError HelpAction m)) \<or>
   (\<exists>ts' new. optional_loop self s pats fol action os sep ea ts
        = Inr (ts @ (HelpAction, [], os) # ts', new, 0))"
proof (induction self s pats fol action os sep ea ts rule: optional_loop.induct)
  case (1 self s pats fol action os sep ea ts)
  note act = "1.prems"(1)
  show ?case
  proof (cases ea)
    case None
    with act show ?thesis by (simp add: optional_loop.simps)
  next
    case (Some e)
    from "1.prems"(2) obtain c0 c1 rest where os: "os = c0 # c1 # rest"
      by (cases os; cases "tl os") auto
    show ?thesis
    proof (cases "c1 \<notin> set prefix_chars \<and> e \<noteq> [] \<and> \<not> ((sep \<noteq> None \<and> sep \<noteq> Some []) \<or> hd e \<in> set prefix_chars)")
      case False
      with act Some os show ?thesis
        by (auto simp: optional_loop.simps)
    next
      case True
      show ?thesis
      proof (cases "map_of option_string_actions [c0, hd e]")
        case None
        with True act Some os show ?thesis
          by (auto simp: optional_loop.simps)
      next
        case (Some act')
        then have act': "act' = HelpAction" by (rule map_of_two)
        have m: "match_argument HelpAction ''A'' = Inr 0" by simp
        have unf: "optional_loop self s pats fol action os sep ea ts =
            (if tl e = [] then
               optional_loop self s pats fol (Some HelpAction) [c0, hd e] None None
                 (ts @ [(HelpAction, [], os)])
             else if hd (tl e) = CHR ''='' then
               optional_loop self s pats fol (Some HelpAction) [c0, hd e] (Some ''='')
                 (Some (tl (tl e))) (ts @ [(HelpAction, [], os)])
             else
               optional_loop self s pats fol (Some HelpAction) [c0, hd e] (Some [])
                 (Some (tl e)) (ts @ [(HelpAction, [], os)]))"
          using True act \<open>ea = Some e\<close> os Some act'
          by (subst optional_loop.simps) auto
        have len: "2 \<le> length [c0, hd e]" by simp
        note pre = act \<open>ea = Some e\<close> m refl os refl
        from True have t1: "c1 \<notin> set prefix_chars \<and> e \<noteq> []"
          and t2: "\<not> (sep \<noteq> None \<and> sep \<noteq> Some [] \<or> hd e \<in> set prefix_chars)"
          by auto
        from Some act' have mo: "map_of option_string_actions [c0, hd e] = Some HelpAction"
          by simp
        show ?thesis
        proof (cases "tl e = []")
          case True
          from "1.IH"(1)[OF act \<open>ea = Some e\<close> m refl os refl t1 t2 mo True refl len]
          show ?thesis unfolding unf using True by auto
        next
          case False
          note ne = False
          show ?thesis
          proof (cases "hd (tl e) = CHR ''=''")
            case True
            from "1.IH"(2)[OF act \<open>ea = Some e\<close> m refl os refl t1 t2 mo ne True refl len]
            show ?thesis unfolding unf using True ne by auto
          next
            case False
            from "1.IH"(3)[OF act \<open>ea = Some e\<close> m refl os refl t1 t2 mo ne False refl len]
            show ?thesis unfolding unf using False ne by auto
          qed
        qed
      qed
    qed
  qed
qed


lemma startswith_Nil: "startswith [] p = (p = [])"
  by (auto simp: startswith_def)

lemma startswith_Cons: "startswith (x # xs) p = (p = [] \<or> (\<exists>q. p = x # q \<and> startswith xs q))"
  by (cases p) (auto simp: startswith_def)

lemma startswith_lit: "startswith s (c # p) = (\<exists>r. s = c # r \<and> startswith r p)"
  by (cases s) (auto simp: startswith_def)

lemma startswith_empty: "startswith s []"
  by (simp add: startswith_def)

lemma takeWhile_prefix: "startswith s (takeWhile P s)"
  by (induction s) (auto simp: startswith_def)

lemma parse_optional_bare:
  "t = [] \<or> hd t \<noteq> CHR ''-'' \<Longrightarrow> parse_optional self t = Inr None"
  by (auto simp: parse_optional_def prefix_chars_def)

lemma get_option_tuples_Inr:
  "2 \<le> length s \<Longrightarrow> hd s = CHR ''-'' \<Longrightarrow> \<exists>ts. get_option_tuples s = Inr ts"
  by (cases s; cases "tl s")
     (auto simp: get_option_tuples_def prefix_chars_def split: prod.splits)

lemma parse_optional_Inl:
  assumes "parse_optional self s = Inl e"
  shows "\<exists>m. e = ParserError m"
proof (cases "s \<noteq> [] \<and> hd s = CHR ''-'' \<and> length s \<noteq> 1")
  case False
  with assms show ?thesis
    by (auto simp: parse_optional_def prefix_chars_def split: option.splits if_splits)
next
  case True
  then have "2 \<le> length s" by (cases s; cases "tl s") auto
  with True obtain ts where ts: "get_option_tuples s = Inr ts"
    using get_option_tuples_Inr by blast
  with assms True show ?thesis
    by (auto simp: parse_optional_def prefix_chars_def split: option.splits if_splits prod.splits)
qed


lemma get_option_tuples_single:
  assumes "get_option_tuples s = Inr [(Some a, os, sep, ea)]"
  shows "2 \<le> length os
         \<and> (a = StoreAction \<longrightarrow> startswith s ''--l'')
         \<and> (a = StoreAction \<and> ea = None \<longrightarrow> 3 \<le> length s \<and> startswith ''--location'' s)
         \<and> (a = HelpAction \<longrightarrow> startswith s ''-h'' \<or> startswith s ''--h'')"
proof -
  obtain c0 c1 r where s: "s = c0 # c1 # r"
    using assms by (cases s; cases "tl s") (auto simp: get_option_tuples_def)
  show ?thesis
  proof (cases "c1 = CHR ''-''")
    case False
    with assms s show ?thesis
      by (auto simp: get_option_tuples_def prefix_chars_def option_string_actions_def
            startswith_Cons startswith_Nil startswith_lit startswith_empty split: if_splits)
  next
    case True
    define p where "p = fst (partition_str CHR ''='' s)"
    have ps: "startswith s p"
      unfolding p_def partition_str_def using takeWhile_prefix[of s]
      by (auto simp: startswith_def)
    have p2: "\<exists>q. p = c0 # c1 # q" using s True assms
      by (auto simp: p_def partition_str_def get_option_tuples_def prefix_chars_def split: if_splits)
    then obtain q where q: "p = c0 # c1 # q" by blast
    from assms s True have c0: "c0 = CHR ''-''"
      by (auto simp: get_option_tuples_def prefix_chars_def split: if_splits)
    have f: "map (\<lambda>(os, a). (Some a, os)) (filter (\<lambda>(os, a). startswith os p) option_string_actions)
             = [(Some a, os)]"
      using assms s True c0
      by (auto simp: get_option_tuples_def prefix_chars_def p_def split: prod.splits if_splits)
    have e: "p = s" if "ea = None"
      using that assms s True c0
      by (auto simp: get_option_tuples_def prefix_chars_def p_def partition_str_def
            split: prod.splits if_splits)
    from f q c0 True ps e show ?thesis
      by (auto simp: option_string_actions_def startswith_Cons startswith_Nil startswith_lit
            startswith_empty split: if_splits)
  qed
qed


lemma length_one_hd: "length xs = 1 \<Longrightarrow> xs = [hd xs]"
  by (cases xs) auto

lemma parse_optional_Some:
  assumes "parse_optional self s = Inr (Some (Some a, os, sep, ea))"
  shows "2 \<le> length os
         \<and> (a = StoreAction \<longrightarrow> startswith s ''--l'')
         \<and> (a = StoreAction \<and> ea = None \<longrightarrow> 3 \<le> length s \<and> startswith ''--location'' s)
         \<and> (a = HelpAction \<longrightarrow> startswith s ''-h'' \<or> startswith s ''--h'')"
proof (cases "map_of option_string_actions s")
  case (Some b)
  with assms show ?thesis
    by (auto simp: parse_optional_def option_string_actions_def startswith_lit startswith_empty
          split: if_splits)
next
  case None
  note n1 = None
  define p where "p = fst (partition_str CHR ''='' s)"
  have ps: "startswith s p"
    unfolding p_def partition_str_def using takeWhile_prefix[of s]
    by (auto simp: startswith_def)
  show ?thesis
  proof (cases "CHR ''='' \<in> set s \<and> map_of option_string_actions p \<noteq> None")
    case True
    with assms n1 have "os = p" "ea \<noteq> None" "map_of option_string_actions p = Some a"
      by (auto simp: parse_optional_def p_def partition_str_def split: if_splits)
    with ps show ?thesis
      by (auto simp: option_string_actions_def startswith_lit startswith_empty split: if_splits)
  next
    case False
    with assms n1 have "\<exists>ts. get_option_tuples s = Inr ts \<and> length ts = 1
        \<and> hd ts = (Some a, os, sep, ea)"
      by (auto simp: parse_optional_def p_def partition_str_def
            split: if_splits sum.splits)
    then have "get_option_tuples s = Inr [(Some a, os, sep, ea)]"
      using length_one_hd by fastforce
    from get_option_tuples_single[OF this] show ?thesis by simp
  qed
qed


lemma consume_optional_None:
  "consume_optional self ns ex s (None, os, sep, ea) pats fol = Inr (ns, ex @ [s], 0)"
  by (simp add: consume_optional_def optional_loop_None)

lemma consume_optional_Store_Some:
  "consume_optional self ns ex s (Some StoreAction, os, sep, Some e) pats fol
     = Inr (ns\<lparr>location := e\<rparr>, ex, 0)"
  by (simp add: consume_optional_def optional_loop_Store_Some)

lemma consume_optional_Store_None:
  "length pats = length fol \<Longrightarrow>
   consume_optional self ns ex s (Some StoreAction, os, sep, None) pats fol
     = (if startswith pats ''A'' then Inr (ns\<lparr>location := hd fol\<rparr>, ex, 1)
        else Inl (ArgumentError StoreAction ''expected one argument''))"
  by (cases fol; cases pats)
     (auto simp: consume_optional_def optional_loop_Store_None startswith_def)

lemma take_actions_Help: "take_actions ns ((HelpAction, args, os) # ts) = Inl HelpExit"
  by simp

lemma consume_optional_Help:
  assumes "2 \<le> length os"
  shows "(\<exists>m. consume_optional self ns ex s (Some HelpAction, os, sep, ea) pats fol
             = Inl (ArgumentError HelpAction m))
         \<or> consume_optional self ns ex s (Some HelpAction, os, sep, ea) pats fol = Inl HelpExit"
  using optional_loop_Help[OF refl assms, of self s pats fol sep ea "[]"]
  by (auto simp: consume_optional_def)

lemma consume_optional_Help_short:
  assumes "length os < 2"
  shows "consume_optional self ns ex s (Some HelpAction, os, sep, ea) pats fol = Inl HelpExit
       \<or> consume_optional self ns ex s (Some HelpAction, os, sep, ea) pats fol = Inl IndexError"
  using assms
  by (cases ea; cases os; cases "tl os")
     (auto simp: consume_optional_def optional_loop.simps)

lemma consume_optional_Inr:
  assumes "consume_optional self ns ex s tup pats fol = Inr (ns', ex', n)"
    and "length pats = length fol"
  shows "length ex \<le> length ex' \<and>
         (n = 0 \<or> (n = 1 \<and> (\<exists>os sep. tup = (Some StoreAction, os, sep, None))
                      \<and> startswith pats ''A'' \<and> ex' = ex \<and> ns' = ns\<lparr>location := hd fol\<rparr>))"
proof -
  obtain action os sep ea where tup: "tup = (action, os, sep, ea)" by (cases tup) auto
  show ?thesis
  proof (cases action)
    case None
    with assms tup show ?thesis by (auto simp: consume_optional_None)
  next
    case (Some a)
    show ?thesis
    proof (cases a)
      case HelpAction
      with assms(1) tup Some consume_optional_Help[of os self ns ex s sep ea pats fol]
        consume_optional_Help_short[of os self ns ex s sep ea pats fol]
      show ?thesis by (cases "2 \<le> length os") auto
    next
      case StoreAction
      with assms tup Some show ?thesis
        by (cases ea) (auto simp: consume_optional_Store_Some consume_optional_Store_None
              split: if_splits)
    qed
  qed
qed

lemma consume_optional_Inl:
  assumes "consume_optional self ns ex s (action, os, sep, ea) pats fol = Inl e"
    and "length pats = length fol" and "action \<noteq> None \<longrightarrow> 2 \<le> length os"
  shows "(e = HelpExit \<and> action = Some HelpAction) \<or> (\<exists>a m. e = ArgumentError a m)"
proof (cases action)
  case None
  with assms show ?thesis by (simp add: consume_optional_None)
next
  case (Some a)
  show ?thesis
  proof (cases a)
    case HelpAction
    with assms Some consume_optional_Help[of os self ns ex s sep ea pats fol]
    show ?thesis by auto
  next
    case StoreAction
    with assms Some show ?thesis
      by (cases ea) (auto simp: consume_optional_Store_Some consume_optional_Store_None
            split: if_splits)
  qed
qed


lemma length_pats_fol:
  "length (map (\<lambda>(s, p, t). p) rest) = length (map (\<lambda>(s, p, t). s) rest)"
  by simp

lemma consume_mono:
  "consume self ns ex toks = Inr (ns', ex') \<Longrightarrow> length ex \<le> length ex'"
proof (induction self ns ex toks arbitrary: ns' ex' rule: consume.induct)
  case (1 self namespace extras)
  then show ?case by simp
next
  case (2 self namespace extras arg_string pat rest)
  then show ?case by fastforce
next
  case (3 self namespace extras arg_string pat option_tuple rest)
  then obtain ns1 ex1 n where
    co: "consume_optional self namespace extras arg_string option_tuple
           (map (\<lambda>(s, p, t). p) rest) (map (\<lambda>(s, p, t). s) rest) = Inr (ns1, ex1, n)"
    and c: "consume self ns1 ex1 (drop n rest) = Inr (ns', ex')"
    by (auto split: sum.splits)
  from consume_optional_Inr[OF co length_pats_fol] have "length extras \<le> length ex1" by simp
  moreover from "3.IH"[OF co refl refl c] have "length ex1 \<le> length ex'" .
  ultimately show ?case by simp
qed

lemma consume_Inl:
  "consume self ns ex toks = Inl e \<Longrightarrow> list_all wf_tok toks \<Longrightarrow>
   (e = HelpExit \<and> (\<exists>tok\<in>set toks. \<exists>os sep ea. snd (snd tok) = Some (Some HelpAction, os, sep, ea)))
   \<or> (\<exists>a m. e = ArgumentError a m)"
proof (induction self ns ex toks rule: consume.induct)
  case (1 self namespace extras)
  then show ?case by simp
next
  case (2 self namespace extras arg_string pat rest)
  then show ?case by auto
next
  case (3 self namespace extras arg_string pat option_tuple rest)
  obtain action os sep ea where tup: "option_tuple = (action, os, sep, ea)"
    by (cases option_tuple) auto
  from "3.prems"(2) tup have wf: "action \<noteq> None \<longrightarrow> 2 \<le> length os"
    by (auto simp: wf_tok_def)
  show ?case
  proof (cases "consume_optional self namespace extras arg_string option_tuple
           (map (\<lambda>(s, p, t). p) rest) (map (\<lambda>(s, p, t). s) rest)")
    case (Inl e')
    with "3.prems"(1) have "e' = e" by simp
    with Inl tup have "consume_optional self namespace extras arg_string (action, os, sep, ea)
           (map (\<lambda>(s, p, t). p) rest) (map (\<lambda>(s, p, t). s) rest) = Inl e"
      by simp
    from consume_optional_Inl[OF this length_pats_fol wf]
    have "(e = HelpExit \<and> action = Some HelpAction) \<or> (\<exists>a m. e = ArgumentError a m)" .
    with tup show ?thesis by auto
  next
    case (Inr r)
    obtain ns1 ex1 n where r: "r = (ns1, ex1, n)" by (cases r) auto
    with Inr "3.prems"(1) have c: "consume self ns1 ex1 (drop n rest) = Inl e" by simp
    from "3.prems"(2) have "list_all wf_tok (drop n rest)"
      by (auto simp: list_all_iff dest: in_set_dropD)
    from "3.IH"[OF Inr[unfolded r] refl refl c this]
    have "(e = HelpExit \<and> (\<exists>tok\<in>set (drop n rest). \<exists>os sep ea.
              snd (snd tok) = Some (Some HelpAction, os, sep, ea)))
          \<or> (\<exists>a m. e = ArgumentError a m)" .
    moreover have "set (drop n rest) \<subseteq> set rest" by (rule set_drop_subset)
    ultimately show ?thesis by (simp only: list.set) blast
  qed
qed

lemma option_string_indices_length:
  "option_string_indices self argv = Inr cls \<Longrightarrow> length cls = length argv"
  by (induction argv arbitrary: cls) (auto split: if_splits sum.splits)

lemma option_string_indices_Inl:
  "option_string_indices self argv = Inl e \<Longrightarrow> \<exists>m. e = ParserError m"
  by (induction argv) (auto split: if_splits sum.splits dest: parse_optional_Inl)

lemma wf_tok_None: "wf_tok (s, p, None)"
  by (simp add: wf_tok_def)

lemma wf_tok_parse_optional: "parse_optional self s = Inr t \<Longrightarrow> wf_tok (s, p, t)"
  using parse_optional_Some[of self s]
  by (cases t) (auto simp: wf_tok_def)

lemma wf_all_A: "list_all wf_tok (zip xs (map (\<lambda>_. (CHR ''A'', None)) xs))"
  by (induction xs) (auto simp: wf_tok_None)

lemma option_string_indices_wf:
  "option_string_indices self argv = Inr cls \<Longrightarrow> list_all wf_tok (zip argv cls)"
proof (induction argv arbitrary: cls)
  case Nil
  then show ?case by simp
next
  case (Cons a argv)
  show ?case
  proof (cases "a = ''--''")
    case True
    with Cons.prems show ?thesis by (auto simp: wf_tok_None wf_all_A)
  next
    case False
    with Cons.prems obtain t r where t: "parse_optional self a = Inr t"
      and r: "option_string_indices self argv = Inr r"
      and cls: "cls = (if t = None then CHR ''A'' else CHR ''O'', t) # r"
      by (auto split: sum.splits)
    from wf_tok_parse_optional[OF t] Cons.IH[OF r] cls show ?thesis by simp
  qed
qed

lemma parse_known_args_inner_Inl:
  assumes "parse_known_args_inner self argv ns = Inl e"
  shows "(\<exists>m. e = ParserError m) \<or> (\<exists>a m. e = ArgumentError a m) \<or> e = HelpExit"
proof (cases "option_string_indices self argv")
  case (Inl e')
  with assms option_string_indices_Inl[OF Inl] show ?thesis
    by (simp add: parse_known_args_inner_def)
next
  case (Inr cls)
  with assms have "consume self ns [] (zip argv cls) = Inl e"
    by (simp add: parse_known_args_inner_def)
  from consume_Inl[OF this option_string_indices_wf[OF Inr]] show ?thesis by blast
qed

lemma run_Inr_Nil:
  "parse_known_args_inner self argv \<lparr>location = ''Mountain View''\<rparr> = Inr (ns, []) \<Longrightarrow>
   run self argv = (0, \<lparr>stdout = ''Fetching live humidity for '' @ location ns @ ''...'' @ [newline]
                            @ ''45% (Simulated)'' @ [newline], stderr = []\<rparr>)"
  by (simp add: run_def main_def parse_args_def parse_known_args_def bind_def returns_def
      get_humidity_def print_def)

lemma run_Inr_Cons:
  "parse_known_args_inner self argv \<lparr>location = ''Mountain View''\<rparr> = Inr (ns, x # xs) \<Longrightarrow>
   run self argv = (2, \<lparr>stdout = [], stderr = format_usage self @ prog self @ '': error: ''
       @ (''unrecognized arguments: '' @ join '' '' (x # xs)) @ [newline]\<rparr>)"
  by (simp add: run_def main_def parse_args_def parse_known_args_def bind_def returns_def
      error_def)

lemma run_ParserError:
  "parse_known_args_inner self argv \<lparr>location = ''Mountain View''\<rparr> = Inl (ParserError m) \<Longrightarrow>
   run self argv = (2, \<lparr>stdout = [], stderr = format_usage self @ prog self @ '': error: ''
       @ m @ [newline]\<rparr>)"
  by (simp add: run_def main_def parse_args_def parse_known_args_def bind_def returns_def
      error_def)

lemma run_ArgumentError:
  "parse_known_args_inner self argv \<lparr>location = ''Mountain View''\<rparr> = Inl (ArgumentError a m) \<Longrightarrow>
   run self argv = (2, \<lparr>stdout = [], stderr = format_usage self @ prog self @ '': error: ''
       @ (''argument '' @ get_action_name a @ '': '' @ m) @ [newline]\<rparr>)"
  by (simp add: run_def main_def parse_args_def parse_known_args_def bind_def returns_def
      error_def)

lemma run_HelpExit:
  "parse_known_args_inner self argv \<lparr>location = ''Mountain View''\<rparr> = Inl HelpExit \<Longrightarrow>
   run self argv = (0, \<lparr>stdout = format_help self, stderr = []\<rparr>)"
  by (simp add: run_def main_def parse_args_def parse_known_args_def bind_def returns_def
      print_help_exit_def)


lemma parse_args_Inr_Nil:
  "parse_known_args_inner self argv \<lparr>location = ''Mountain View''\<rparr> = Inr (ns, []) \<Longrightarrow>
   parse_args self argv io = (Returns ns, io)"
  by (simp add: parse_args_def parse_known_args_def bind_def returns_def)

lemma parse_args_Inr_Cons:
  "parse_known_args_inner self argv \<lparr>location = ''Mountain View''\<rparr> = Inr (ns, x # xs) \<Longrightarrow>
   fst (parse_args self argv io) = SystemExit 2"
  by (simp add: parse_args_def parse_known_args_def bind_def returns_def error_def)

lemma parse_args_ParserError:
  "parse_known_args_inner self argv \<lparr>location = ''Mountain View''\<rparr> = Inl (ParserError m) \<Longrightarrow>
   fst (parse_args self argv io) = SystemExit 2"
  by (simp add: parse_args_def parse_known_args_def bind_def returns_def error_def)

lemma parse_args_ArgumentError:
  "parse_known_args_inner self argv \<lparr>location = ''Mountain View''\<rparr> = Inl (ArgumentError a m) \<Longrightarrow>
   fst (parse_args self argv io) = SystemExit 2"
  by (simp add: parse_args_def parse_known_args_def bind_def returns_def error_def)

lemma parse_args_HelpExit:
  "parse_known_args_inner self argv \<lparr>location = ''Mountain View''\<rparr> = Inl HelpExit \<Longrightarrow>
   fst (parse_args self argv io) = SystemExit 0"
  by (simp add: parse_args_def parse_known_args_def bind_def returns_def print_help_exit_def)

lemma run_cases:
  "(\<exists>ns. parse_args self argv \<lparr>stdout = [], stderr = []\<rparr>
            = (Returns ns, \<lparr>stdout = [], stderr = []\<rparr>)
        \<and> run self argv =
            (0, \<lparr>stdout = ''Fetching live humidity for '' @ location ns @ ''...'' @ [newline]
                          @ ''45% (Simulated)'' @ [newline], stderr = []\<rparr>))
   \<or> (fst (parse_args self argv \<lparr>stdout = [], stderr = []\<rparr>) = SystemExit 0
        \<and> run self argv = (0, \<lparr>stdout = format_help self, stderr = []\<rparr>))
   \<or> (\<exists>message. fst (parse_args self argv \<lparr>stdout = [], stderr = []\<rparr>) = SystemExit 2
        \<and> run self argv =
            (2, \<lparr>stdout = [], stderr = format_usage self @ prog self @ '': error: ''
                                         @ message @ [newline]\<rparr>))"
proof (cases "parse_known_args_inner self argv \<lparr>location = ''Mountain View''\<rparr>")
  case (Inl e)
  from parse_known_args_inner_Inl[OF Inl]
  consider m where "e = ParserError m" | a m where "e = ArgumentError a m" | "e = HelpExit"
    by blast
  then show ?thesis
  proof cases
    case 1
    with Inl run_ParserError[of self argv m] parse_args_ParserError[of self argv m]
    show ?thesis by blast
  next
    case 2
    with Inl run_ArgumentError[of self argv a m] parse_args_ArgumentError[of self argv a m]
    show ?thesis by blast
  next
    case 3
    with Inl run_HelpExit[of self argv] parse_args_HelpExit[of self argv]
    show ?thesis by blast
  qed
next
  case (Inr r)
  obtain ns extras where r: "r = (ns, extras)" by (cases r) auto
  show ?thesis
  proof (cases extras)
    case Nil
    with Inr r run_Inr_Nil[of self argv ns] parse_args_Inr_Nil[of self argv ns]
    show ?thesis by blast
  next
    case (Cons x xs)
    with Inr r run_Inr_Cons[of self argv ns x xs] parse_args_Inr_Cons[of self argv ns x xs]
    show ?thesis by blast
  qed
qed

lemma lines_of_two:
  "newline \<notin> set a \<Longrightarrow> newline \<notin> set b \<Longrightarrow>
   lines_of (a @ [newline] @ b @ [newline]) = [a, b]"
  using split_lines_line[of a "[]" "b @ [newline]"] split_lines_line[of b "[]" "[]"]
  by (simp add: lines_of_def)

lemma location_prefixes:
  assumes "3 \<le> length p" "startswith ''--location'' p"
  shows "p \<in> {''--l'', ''--lo'', ''--loc'', ''--loca'', ''--locat'', ''--locati'',
              ''--locatio'', ''--location''}"
  using assms by (auto simp: startswith_Cons startswith_Nil)


lemma parse_optional_location_prefix:
  assumes "3 \<le> length p" "startswith ''--location'' p"
  shows "parse_optional self p = Inr (Some (Some StoreAction, ''--location'', None, None))"
  using location_prefixes[OF assms]
  by (elim insertE emptyE;
      simp add: parse_optional_def get_option_tuples_def partition_str_def prefix_chars_def
        option_string_actions_def startswith_def)


lemma parse_optional_location_prefix_eq:
  assumes "3 \<le> length p" "startswith ''--location'' p"
  shows "parse_optional self (p @ CHR ''='' # v)
         = Inr (Some (Some StoreAction, ''--location'', Some ''='', Some v))"
  using location_prefixes[OF assms]
  by (elim insertE emptyE;
      simp add: parse_optional_def get_option_tuples_def partition_str_def prefix_chars_def
        option_string_actions_def startswith_def)


lemma run_cong:
  "parse_known_args_inner self a \<lparr>location = ''Mountain View''\<rparr>
     = parse_known_args_inner self b \<lparr>location = ''Mountain View''\<rparr> \<Longrightarrow>
   run self a = run self b"
proof -
  assume e: "parse_known_args_inner self a \<lparr>location = ''Mountain View''\<rparr>
     = parse_known_args_inner self b \<lparr>location = ''Mountain View''\<rparr>"
  have "parse_known_args self a = parse_known_args self b"
    by (rule ext) (simp add: parse_known_args_def e)
  then show ?thesis by (simp add: run_def main_def parse_args_def)
qed

lemma bare_not_dashes: "v = [] \<or> hd v \<noteq> CHR ''-'' \<Longrightarrow> v \<noteq> ''--''"
  by auto

lemma parse_known_args_inner_location_prefix:
  assumes "3 \<le> length p" "startswith ''--location'' p"
  shows "parse_known_args_inner self (p # rest) ns
         = parse_known_args_inner self (''--location'' # rest) ns"
proof -
  have p: "parse_optional self p = Inr (Some (Some StoreAction, ''--location'', None, None))"
    by (rule parse_optional_location_prefix[OF assms])
  have l: "parse_optional self ''--location''
        = Inr (Some (Some StoreAction, ''--location'', None, None))"
    by (rule parse_optional_location_prefix) (simp_all add: startswith_def)
  from assms(1) have ne: "p \<noteq> ''--''" by auto
  show ?thesis
    by (cases "option_string_indices self rest")
       (simp_all add: parse_known_args_inner_def p l ne consume_optional_Store_None)
qed

lemma parse_known_args_inner_location_value:
  assumes "v = [] \<or> hd v \<noteq> CHR ''-''"
  shows "parse_known_args_inner self [''--location'', v] ns = Inr (ns\<lparr>location := v\<rparr>, [])"
proof -
  have l: "parse_optional self ''--location''
        = Inr (Some (Some StoreAction, ''--location'', None, None))"
    by (rule parse_optional_location_prefix) (simp_all add: startswith_def)
  from assms have ne: "v \<noteq> ''--''" by auto
  show ?thesis
    by (simp add: parse_known_args_inner_def l ne parse_optional_bare[OF assms]
        consume_optional_Store_None startswith_def)
qed

lemma parse_known_args_inner_location_eq:
  assumes "3 \<le> length p" "startswith ''--location'' p"
  shows "parse_known_args_inner self [p @ CHR ''='' # v] ns = Inr (ns\<lparr>location := v\<rparr>, [])"
proof -
  from assms(1) have ne: "p @ CHR ''='' # v \<noteq> ''--''" by (cases p; cases "tl p") auto
  show ?thesis
    by (simp add: parse_known_args_inner_def ne parse_optional_location_prefix_eq[OF assms]
        consume_optional_Store_Some)
qed





lemma option_string_indices_bare:
  "option_string_indices self (pre @ t # post) = Inr cls \<Longrightarrow>
   t = [] \<or> hd t \<noteq> CHR ''-'' \<Longrightarrow> snd (cls ! length pre) = None"
proof (induction pre arbitrary: cls)
  case Nil
  from Nil.prems(2) have ne: "t \<noteq> ''--''" by auto
  with Nil.prems parse_optional_bare[OF Nil.prems(2), of self] show ?case
    by (auto split: sum.splits)
next
  case (Cons a pre)
  show ?case
  proof (cases "a = ''--''")
    case True
    with Cons.prems(1) show ?thesis by (auto simp: nth_append)
  next
    case False
    with Cons.prems(1) obtain c r where "option_string_indices self (pre @ t # post) = Inr r"
      and "cls = c # r"
      by (auto split: sum.splits)
    with Cons.IH[OF _ Cons.prems(2)] show ?thesis by simp
  qed
qed

lemma consume_positional:
  "consume self ns ex toks = Inr (ns', ex') \<Longrightarrow> i < length toks \<Longrightarrow>
   snd (snd (toks ! i)) = None \<Longrightarrow> i = 0 \<or> \<not> takes_value (toks ! (i - 1)) \<Longrightarrow>
   ex' \<noteq> []"
proof (induction self ns ex toks arbitrary: i rule: consume.induct)
  case (1 self namespace extras)
  then show ?case by simp
next
  case (2 self namespace extras arg_string pat rest)
  from "2.prems"(1) have "consume self namespace (extras @ [arg_string]) rest = Inr (ns', ex')"
    by simp
  from consume_mono[OF this] show ?case by auto
next
  case (3 self namespace extras arg_string pat option_tuple rest)
  from "3.prems"(1) obtain ns1 ex1 n where
    co: "consume_optional self namespace extras arg_string option_tuple
           (map (\<lambda>(s, p, t). p) rest) (map (\<lambda>(s, p, t). s) rest) = Inr (ns1, ex1, n)"
    and c: "consume self ns1 ex1 (drop n rest) = Inr (ns', ex')"
    by (auto split: sum.splits)
  from "3.prems"(3) obtain j where i: "i = Suc j" by (cases i) auto
  with "3.prems"(2) have j: "j < length rest" by simp
  from "3.prems"(3) i have jn: "snd (snd (rest ! j)) = None" by simp
  from consume_optional_Inr[OF co length_pats_fol]
  consider "n = 0" | "n = 1" "\<exists>os sep. option_tuple = (Some StoreAction, os, sep, None)"
    by blast
  then show ?case
  proof cases
    case 1
    from "3.prems"(4) i have "j = 0 \<or> \<not> takes_value (rest ! (j - 1))"
      by (cases j) auto
    with "3.IH"[OF co refl refl, of j] c 1 j jn show ?thesis by simp
  next
    case 2
    then have tv: "takes_value (((arg_string, pat, Some option_tuple) # rest) ! 0)"
      by (auto simp: takes_value_def)
    with "3.prems"(4) i obtain k where k: "j = Suc k" by (cases j) auto
    with j have kl: "k < length (drop n rest)" using 2(1) by simp
    from j k 2(1) have d: "drop n rest ! m = rest ! Suc m" for m
      by (simp add: nth_drop)
    from jn k have kn: "snd (snd (drop n rest ! k)) = None" by (simp add: d)
    from "3.prems"(4) i k have "k = 0 \<or> \<not> takes_value (drop n rest ! (k - 1))"
      by (cases k) (auto simp: d)
    from "3.IH"[OF co refl refl c kl kn this] show ?thesis .
  qed
qed


lemma parse_positional_rejected:
  assumes bare: "t = [] \<or> hd t \<noteq> CHR ''-''"
    and prev: "pre = [] \<or> \<not> (3 \<le> length (last pre) \<and> startswith ''--location'' (last pre))"
  shows "parse_known_args_inner self (pre @ t # post) ns \<noteq> Inr (ns', [])"
proof
  assume a: "parse_known_args_inner self (pre @ t # post) ns = Inr (ns', [])"
  let ?argv = "pre @ t # post"
  from a obtain cls where cls: "option_string_indices self ?argv = Inr cls"
    and c: "consume self ns [] (zip ?argv cls) = Inr (ns', [])"
    by (auto simp: parse_known_args_inner_def split: sum.splits)
  from option_string_indices_length[OF cls] have len: "length cls = length ?argv" .
  let ?toks = "zip ?argv cls"
  let ?i = "length pre"
  have i: "?i < length ?toks" using len by simp
  have n: "snd (snd (?toks ! ?i)) = None"
    using option_string_indices_bare[OF cls bare] i by simp
  have p: "?i = 0 \<or> \<not> takes_value (?toks ! (?i - 1))"
  proof (cases "pre = []")
    case True
    then show ?thesis by simp
  next
    case False
    then have l: "?argv ! (?i - 1) = last pre"
      by (simp add: nth_append last_conv_nth)
    from False i have i1: "?i - 1 < length ?toks" by (simp add: less_imp_diff_less)
    with option_string_indices_wf[OF cls] have wf: "wf_tok (?toks ! (?i - 1))"
      by (simp add: list_all_length)
    have f: "fst (?toks ! (?i - 1)) = last pre"
      using i1 l by simp
    have "\<not> takes_value (?toks ! (?i - 1))"
    proof
      assume "takes_value (?toks ! (?i - 1))"
      then obtain os sep where "snd (snd (?toks ! (?i - 1))) = Some (Some StoreAction, os, sep, None)"
        by (auto simp: takes_value_def)
      with wf have "3 \<le> length (fst (?toks ! (?i - 1)))
          \<and> startswith ''--location'' (fst (?toks ! (?i - 1)))"
        unfolding wf_tok_def by blast
      with f prev False show False by simp
    qed
    then show ?thesis by simp
  qed
  from consume_positional[OF c i n p] show False by simp
qed

lemma help_token:
  assumes "parse_known_args_inner self argv ns = Inl HelpExit"
  shows "\<exists>s\<in>set argv. startswith s ''-h'' \<or> startswith s ''--h''"
proof -
  from assms obtain cls where cls: "option_string_indices self argv = Inr cls"
    and c: "consume self ns [] (zip argv cls) = Inl HelpExit"
    by (auto simp: parse_known_args_inner_def split: sum.splits
          dest: option_string_indices_Inl)
  from consume_Inl[OF c option_string_indices_wf[OF cls]]
  obtain tok os sep ea where tok: "tok \<in> set (zip argv cls)"
    and h: "snd (snd tok) = Some (Some HelpAction, os, sep, ea)"
    by auto
  from option_string_indices_wf[OF cls] tok have "wf_tok tok"
    by (simp add: list_all_iff)
  with h have "startswith (fst tok) ''-h'' \<or> startswith (fst tok) ''--h''"
    unfolding wf_tok_def by blast
  moreover from tok have "fst tok \<in> set argv"
    by (metis prod.collapse set_zip_leftD)
  ultimately show ?thesis by blast
qed

lemma consume_success_needs_store:
  assumes c: "consume self ns ex toks = Inr (ns', [])"
    and wf: "list_all wf_tok toks"
    and no: "\<forall>tok\<in>set toks. \<not> startswith (fst tok) ''--l''"
  shows "toks = []"
proof (cases toks)
  case Nil
  then show ?thesis .
next
  case (Cons tok rest)
  obtain s p t where tok: "tok = (s, p, t)" by (cases tok) auto
  show ?thesis
  proof (cases t)
    case None
    with c Cons tok have "consume self ns (ex @ [s]) rest = Inr (ns', [])" by simp
    from consume_mono[OF this] show ?thesis by simp
  next
    case (Some tup)
    obtain action os sep ea where tup: "tup = (action, os, sep, ea)" by (cases tup) auto
    from c Cons tok Some obtain ns1 ex1 n where
      co: "consume_optional self ns ex s tup
             (map (\<lambda>(s, p, t). p) rest) (map (\<lambda>(s, p, t). s) rest) = Inr (ns1, ex1, n)"
      and c': "consume self ns1 ex1 (drop n rest) = Inr (ns', [])"
      by (auto split: sum.splits)
    from consume_mono[OF c'] have ex1: "ex1 = []" by simp
    from wf Cons tok Some tup have w: "wf_tok (s, p, Some (action, os, sep, ea))" by simp
    show ?thesis
    proof (cases action)
      case None
      with co tup ex1 show ?thesis by (simp add: consume_optional_None)
    next
      case (Some a)
      show ?thesis
      proof (cases a)
        case HelpAction
        with w Some have "2 \<le> length os" by (simp add: wf_tok_def)
        from consume_optional_Help[OF this, of self ns ex s sep ea
            "map (\<lambda>(s, p, t). p) rest" "map (\<lambda>(s, p, t). s) rest"]
          co tup Some HelpAction
        show ?thesis by auto
      next
        case StoreAction
        with w Some have "startswith s ''--l''" by (simp add: wf_tok_def)
        with no Cons tok show ?thesis by simp
      qed
    qed
  qed
qed

lemma parse_success_needs_store:
  assumes "parse_known_args_inner self argv ns = Inr (ns', [])"
    and "\<forall>s\<in>set argv. \<not> startswith s ''--l''"
  shows "argv = []"
proof -
  from assms(1) obtain cls where cls: "option_string_indices self argv = Inr cls"
    and c: "consume self ns [] (zip argv cls) = Inr (ns', [])"
    by (auto simp: parse_known_args_inner_def split: sum.splits)
  have "\<forall>tok\<in>set (zip argv cls). \<not> startswith (fst tok) ''--l''"
    using assms(2) by (metis prod.collapse set_zip_leftD)
  from consume_success_needs_store[OF c option_string_indices_wf[OF cls] this]
    option_string_indices_length[OF cls]
  show ?thesis by (cases argv) auto
qed

lemma parse_args_Returns:
  assumes "fst (parse_args self argv io) = Returns args"
  shows "parse_known_args_inner self argv \<lparr>location = ''Mountain View''\<rparr> = Inr (args, [])"
proof (cases "parse_known_args_inner self argv \<lparr>location = ''Mountain View''\<rparr>")
  case (Inl e)
  from parse_known_args_inner_Inl[OF Inl]
  consider m where "e = ParserError m" | a m where "e = ArgumentError a m" | "e = HelpExit"
    by blast
  then show ?thesis
    using assms Inl parse_args_ParserError[of self argv _ io]
      parse_args_ArgumentError[of self argv _ _ io] parse_args_HelpExit[of self argv io]
    by cases auto
next
  case (Inr r)
  obtain ns extras where r: "r = (ns, extras)" by (cases r) auto
  show ?thesis
  proof (cases extras)
    case Nil
    with Inr r parse_args_Inr_Nil[of self argv ns io] assms show ?thesis by simp
  next
    case (Cons x xs)
    with Inr r parse_args_Inr_Cons[of self argv ns x xs io] assms show ?thesis by simp
  qed
qed

section \<open>Properties of the entry point\<close>

text \<open>
  C3. Invoked with no \<open>--location\<close> flag, the program uses the default location.
  With no argument at all it writes \<open>Fetching live humidity for Mountain View...\<close> and
  then \<open>45% (Simulated)\<close> to standard output, nothing to standard error, and exits
  with status 0. And an invocation in which no argument starts with \<open>--l\<close> passes
  argument parsing only if it has no argument at all, the location then being
  \<open>Mountain View\<close>: every successful run without the flag is that one.
\<close>

theorem run_default_location:
  "run self [] =
     (0, \<lparr>stdout = ''Fetching live humidity for Mountain View...'' @ [newline]
                    @ ''45% (Simulated)'' @ [newline],
          stderr = []\<rparr>)
   \<and> (fst (parse_args self argv \<lparr>stdout = [], stderr = []\<rparr>) = Returns args
        \<and> (\<forall>s\<in>set argv. \<not> startswith s ''--l'')
        \<longrightarrow> argv = [] \<and> location args = ''Mountain View'')"
proof -
  have d: "parse_known_args_inner self [] \<lparr>location = ''Mountain View''\<rparr>
        = Inr (\<lparr>location = ''Mountain View''\<rparr>, [])"
    by (simp add: parse_known_args_inner_def)
  have a: "run self [] =
     (0, \<lparr>stdout = ''Fetching live humidity for Mountain View...'' @ [newline]
                    @ ''45% (Simulated)'' @ [newline],
          stderr = []\<rparr>)"
    using run_Inr_Nil[OF d] by simp
  have b: "argv = [] \<and> location args = ''Mountain View''"
    if r: "fst (parse_args self argv \<lparr>stdout = [], stderr = []\<rparr>) = Returns args"
      and n: "\<forall>s\<in>set argv. \<not> startswith s ''--l''"
  proof -
    note p = parse_args_Returns[OF r]
    from parse_success_needs_store[OF p n] have e: "argv = []" .
    with p d have "args = \<lparr>location = ''Mountain View''\<rparr>" by simp
    then have "location args = ''Mountain View''" by simp
    with e show ?thesis by simp
  qed
  from a b show ?thesis by blast
qed

theorem run_default_location_witness:
  "fst (parse_args example_parser [] \<lparr>stdout = [], stderr = []\<rparr>)
     = Returns \<lparr>location = ''Mountain View''\<rparr>
   \<and> location \<lparr>location = ''Mountain View''\<rparr> = ''Mountain View''
   \<and> run example_parser [] =
     (0, \<lparr>stdout = ''Fetching live humidity for Mountain View...'' @ [newline]
                    @ ''45% (Simulated)'' @ [newline],
          stderr = []\<rparr>)"
proof -
  have h: "fst (parse_args example_parser [] \<lparr>stdout = [], stderr = []\<rparr>)
     = Returns \<lparr>location = ''Mountain View''\<rparr>"
    by code_simp
  have n: "\<forall>s\<in>set ([] :: string list). \<not> startswith s ''--l''" by simp
  note t = run_default_location[of example_parser "[]" "\<lparr>location = ''Mountain View''\<rparr>"]
  from t h n have "location \<lparr>location = ''Mountain View''\<rparr> = ''Mountain View''" by blast
  with h conjunct1[OF t] show ?thesis by blast
qed

text \<open>
  C5 (amended). Whenever argument parsing succeeds, the run ends with status 0 and
  standard output holds exactly the notice for the resolved location, a line terminator,
  the result \<open>45% (Simulated)\<close> and a line terminator, in that order and nothing else
  (standard error stays empty); these are exactly two lines, the notice and then the
  result, when the location holds no line terminator.
\<close>

theorem run_success_output:
  assumes "fst (parse_args self argv \<lparr>stdout = [], stderr = []\<rparr>) = Returns args"
  shows "run self argv =
           (0, \<lparr>stdout = ''Fetching live humidity for '' @ location args @ ''...'' @ [newline]
                          @ ''45% (Simulated)'' @ [newline],
                stderr = []\<rparr>)
         \<and> (newline \<notin> set (location args) \<longrightarrow>
              lines_of (stdout (snd (run self argv)))
                = [''Fetching live humidity for '' @ location args @ ''...'',
                   ''45% (Simulated)''])"
proof -
  from run_cases[of self argv] assms
  have r: "run self argv =
           (0, \<lparr>stdout = ''Fetching live humidity for '' @ location args @ ''...'' @ [newline]
                          @ ''45% (Simulated)'' @ [newline],
                stderr = []\<rparr>)"
    by auto
  have "lines_of ((''Fetching live humidity for '' @ location args @ ''...'') @ [newline]
                          @ ''45% (Simulated)'' @ [newline])
      = [''Fetching live humidity for '' @ location args @ ''...'', ''45% (Simulated)'']"
    if "newline \<notin> set (location args)"
    by (rule lines_of_two) (use that in \<open>auto simp: newline_def\<close>)
  with r show ?thesis by simp
qed

theorem run_success_output_witness:
  "fst (parse_args example_parser [''--location'', ''Tokyo''] \<lparr>stdout = [], stderr = []\<rparr>)
     = Returns \<lparr>location = ''Tokyo''\<rparr>
   \<and> newline \<notin> set ''Tokyo''
   \<and> lines_of (stdout (snd (run example_parser [''--location'', ''Tokyo''])))
       = [''Fetching live humidity for Tokyo...'', ''45% (Simulated)'']"
proof -
  have h: "fst (parse_args example_parser [''--location'', ''Tokyo'']
                  \<lparr>stdout = [], stderr = []\<rparr>) = Returns \<lparr>location = ''Tokyo''\<rparr>"
    by code_simp
  have n: "newline \<notin> set ''Tokyo''" by (simp add: newline_def)
  have n': "newline \<notin> set (location \<lparr>location = ''Tokyo''\<rparr>)"
    by (simp add: newline_def)
  from run_success_output[OF h] n'
  have "lines_of (stdout (snd (run example_parser [''--location'', ''Tokyo''])))
       = [''Fetching live humidity for '' @ location \<lparr>location = ''Tokyo''\<rparr> @ ''...'',
          ''45% (Simulated)'']"
    by blast
  then have "lines_of (stdout (snd (run example_parser [''--location'', ''Tokyo''])))
       = [''Fetching live humidity for Tokyo...'', ''45% (Simulated)'']"
    by simp
  with h n show ?thesis by blast
qed

text \<open>
  The claim as it stands, two lines for every successful run, fails for a location that
  holds a line terminator: parsing succeeds and the run writes three lines.
\<close>

theorem run_three_lines_counterexample:
  "fst (parse_args example_parser [''--location'', [CHR ''a'', CHR 0x0A, CHR ''b'']]
          \<lparr>stdout = [], stderr = []\<rparr>)
     = Returns \<lparr>location = [CHR ''a'', CHR 0x0A, CHR ''b'']\<rparr>
   \<and> lines_of (stdout (snd (run example_parser
          [''--location'', [CHR ''a'', CHR 0x0A, CHR ''b'']])))
       = [''Fetching live humidity for a'', ''b...'', ''45% (Simulated)'']"
  by code_simp





text \<open>
  C10. The parser accepts the unambiguous abbreviations of the flag, which are the
  prefixes of \<open>--location\<close> of three characters or more (\<open>--l\<close>, \<open>--lo\<close>, ...): an
  invocation that starts with such a prefix runs exactly as the one that spells
  \<open>--location\<close> out, whatever follows; with a value that does not start with \<open>-\<close> it
  succeeds and names that value in the notice, and so does the form \<open>PREFIX=VALUE\<close> for
  any value.
\<close>

theorem location_abbreviation:
  assumes "3 \<le> length p" and "startswith ''--location'' p"
  shows "run self (p # rest) = run self (''--location'' # rest)
         \<and> (v = [] \<or> hd v \<noteq> CHR ''-'' \<longrightarrow>
              run self [p, v] =
                (0, \<lparr>stdout = ''Fetching live humidity for '' @ v @ ''...'' @ [newline]
                               @ ''45% (Simulated)'' @ [newline],
                     stderr = []\<rparr>))
         \<and> run self [p @ ''='' @ w] =
                (0, \<lparr>stdout = ''Fetching live humidity for '' @ w @ ''...'' @ [newline]
                               @ ''45% (Simulated)'' @ [newline],
                     stderr = []\<rparr>)"
proof -
  have a: "run self (p # rest) = run self (''--location'' # rest)" for rest
    by (rule run_cong) (rule parse_known_args_inner_location_prefix[OF assms])
  have b: "run self [''--location'', v] =
                (0, \<lparr>stdout = ''Fetching live humidity for '' @ v @ ''...'' @ [newline]
                               @ ''45% (Simulated)'' @ [newline],
                     stderr = []\<rparr>)" if "v = [] \<or> hd v \<noteq> CHR ''-''"
    using run_Inr_Nil[OF parse_known_args_inner_location_value[OF that]] by simp
  have c: "run self [p @ ''='' @ w] =
                (0, \<lparr>stdout = ''Fetching live humidity for '' @ w @ ''...'' @ [newline]
                               @ ''45% (Simulated)'' @ [newline],
                     stderr = []\<rparr>)"
    using run_Inr_Nil[OF parse_known_args_inner_location_eq[OF assms]] by simp
  from a b c show ?thesis by simp
qed

theorem location_abbreviation_witness:
  "3 \<le> length ''--loc'' \<and> startswith ''--location'' ''--loc''
   \<and> run example_parser [''--loc'', ''Tokyo''] = run example_parser [''--location'', ''Tokyo'']
   \<and> hd ''Tokyo'' \<noteq> CHR ''-''
   \<and> run example_parser [''--loc'', ''Tokyo''] =
       (0, \<lparr>stdout = ''Fetching live humidity for Tokyo...'' @ [newline]
                      @ ''45% (Simulated)'' @ [newline],
            stderr = []\<rparr>)
   \<and> run example_parser [''--loc=Tokyo''] =
       (0, \<lparr>stdout = ''Fetching live humidity for Tokyo...'' @ [newline]
                      @ ''45% (Simulated)'' @ [newline],
            stderr = []\<rparr>)"
proof -
  have h1: "3 \<le> length ''--loc''" by simp
  have h2: "startswith ''--location'' ''--loc''" by (simp add: startswith_def)
  have h3: "''Tokyo'' = [] \<or> hd ''Tokyo'' \<noteq> CHR ''-''" by simp
  note t = location_abbreviation[OF h1 h2, of example_parser "[''Tokyo'']" "''Tokyo''" "''Tokyo''"]
  have a: "run example_parser [''--loc'', ''Tokyo''] = run example_parser [''--location'', ''Tokyo'']"
    by (rule conjunct1[OF t])
  have b: "run example_parser [''--loc'', ''Tokyo''] =
       (0, \<lparr>stdout = ''Fetching live humidity for Tokyo...'' @ [newline]
                      @ ''45% (Simulated)'' @ [newline],
            stderr = []\<rparr>)"
    using t[THEN conjunct2, THEN conjunct1] h3 by simp
  have c: "run example_parser [''--loc=Tokyo''] =
       (0, \<lparr>stdout = ''Fetching live humidity for Tokyo...'' @ [newline]
                      @ ''45% (Simulated)'' @ [newline],
            stderr = []\<rparr>)"
    using t[THEN conjunct2, THEN conjunct2] by simp
  have h4: "hd ''Tokyo'' \<noteq> CHR ''-''" by simp
  show ?thesis by (intro conjI) (rule h1 h2 h4 a b c)+
qed

text \<open>
  C9 (amended). A positional argument is rejected unless the help is requested. Let the
  command line hold a string \<open>t\<close> that does not start with \<open>-\<close> and is not the value of
  a \<open>--location\<close> flag: it is the first argument, or the argument before it is not an
  abbreviation of \<open>--location\<close>. Then the run fails in argument parsing, with the usage
  and an error message on standard error, nothing on standard output and exit status 2;
  or else some other argument starts with \<open>-h\<close> or \<open>--h\<close>, the help is printed, and the
  exit status is 0. In neither case is the lookup called.
\<close>

theorem positional_rejected:
  assumes "t = [] \<or> hd t \<noteq> CHR ''-''"
    and "pre = [] \<or> \<not> (3 \<le> length (last pre) \<and> startswith ''--location'' (last pre))"
  shows "(fst (run self (pre @ t # post)) = 2
          \<and> stdout (snd (run self (pre @ t # post))) = []
          \<and> (\<exists>message. stderr (snd (run self (pre @ t # post)))
                = format_usage self @ prog self @ '': error: '' @ message @ [newline]))
         \<or> (run self (pre @ t # post) = (0, \<lparr>stdout = format_help self, stderr = []\<rparr>)
             \<and> (\<exists>s\<in>set (pre @ post). startswith s ''-h'' \<or> startswith s ''--h''))"
proof (cases "parse_known_args_inner self (pre @ t # post) \<lparr>location = ''Mountain View''\<rparr>")
  case (Inl e)
  from parse_known_args_inner_Inl[OF Inl]
  consider m where "e = ParserError m" | a m where "e = ArgumentError a m" | "e = HelpExit"
    by blast
  then show ?thesis
  proof cases
    case 1
    with Inl run_ParserError[of self "pre @ t # post" m] show ?thesis by simp
  next
    case 2
    with Inl run_ArgumentError[of self "pre @ t # post" a m] show ?thesis by simp
  next
    case 3
    with Inl help_token[of self "pre @ t # post"]
    obtain s where s: "s \<in> set (pre @ t # post)"
      and h: "startswith s ''-h'' \<or> startswith s ''--h''"
      by blast
    from h assms(1) have "s \<noteq> t" by (auto simp: startswith_lit)
    with s have "s \<in> set (pre @ post)" by auto
    with h 3 Inl run_HelpExit[of self "pre @ t # post"] show ?thesis by blast
  qed
next
  case (Inr r)
  obtain ns extras where r: "r = (ns, extras)" by (cases r) auto
  with Inr parse_positional_rejected[OF assms, of self post "\<lparr>location = ''Mountain View''\<rparr>" ns]
  obtain x xs where "extras = x # xs" by (cases extras) auto
  with Inr r run_Inr_Cons[of self "pre @ t # post" ns x xs] show ?thesis by simp
qed

theorem positional_rejected_witness:
  "hd ''Tokyo'' \<noteq> CHR ''-''
   \<and> fst (run example_parser [''Tokyo'']) = 2
   \<and> stdout (snd (run example_parser [''Tokyo''])) = []"
  using positional_rejected[of "''Tokyo''" "[]" example_parser "[]"]
  by simp

text \<open>
  The claim as it stands, every invocation with a bare token fails, does not hold when
  the help flag is present: the help action exits with status 0 as soon as it is
  reached, before the leftover arguments are reported.
\<close>

theorem positional_with_help_counterexample:
  "run example_parser [''Tokyo'', ''-h'']
     = (0, \<lparr>stdout = format_help example_parser, stderr = []\<rparr>)"
  by code_simp

end
